theory Spec2Isabelle
  imports Complex_Main
begin

section \<open>Frame extraction: the data model\<close>

text \<open>
  The module \<^verbatim>\<open>frame_extraction.py\<close> opens a video with OpenCV, reads it frame by
  frame, keeps every frame whose read index is a multiple of \<^verbatim>\<open>sample_rate\<close>, resizes
  the kept frame and writes it as a numbered PNG file.

  A raster carries its width and height, which the code's control flow and the library
  calls depend on, and its pixel content of an arbitrary type \<open>'px\<close>. The pixel values of
  a resized raster are computed by the library's area interpolation in floating point; they
  are left open: the interpolation is a parameter \<open>INTER_AREA\<close> of the model, as it is an
  argument of \<^verbatim>\<open>cv2.resize\<close>, and every theorem holds for each choice of it.
\<close>

record 'px image =
  width :: int
  height :: int
  pixels :: 'px

type_synonym 'px interpolation = "'px image \<Rightarrow> int \<times> int \<Rightarrow> 'px"

text \<open>
  The exceptions that the modelled code paths can raise. \<open>ZeroDivisionError\<close> is Python's
  own, raised by \<^verbatim>\<open>%\<close> with a zero right operand; \<open>Cv2Error\<close> stands for
  \<^verbatim>\<open>cv2.error\<close>.
\<close>

datatype py_error =
    FileNotFoundError string
  | FileExistsError string
  | ZeroDivisionError
  | Cv2Error

text \<open>
  The file system maps a path, as the program spells it, to what is stored there. A
  \<open>Video\<close> is a file that OpenCV can open, with the frames its decoder delivers in order
  (each a non-empty raster); \<open>Other\<close> is any file that OpenCV cannot open.
\<close>

datatype 'px node =
    Dir
  | Video "'px image list"
  | Image "'px image"
  | Other

text \<open>The calls that leave the program, in the order in which they are made.\<close>

datatype 'px event =
    Open_video string
  | Mkdir string
  | Read_frame
  | Imwrite string "'px image"
  | Release
  | Print string

record 'px world =
  fs :: "string \<rightharpoonup> 'px node"
  trace :: "'px event list"

definition emit :: "'px event \<Rightarrow> 'px world \<Rightarrow> 'px world" where
  "emit e w = w\<lparr>trace := trace w @ [e]\<rparr>"

subsection \<open>Python's string formatting\<close>

definition digit_char :: "nat \<Rightarrow> char" where
  "digit_char d = ''0123456789'' ! (d mod 10)"

fun digits10 :: "nat \<Rightarrow> string" where
  "digits10 n = (if n < 10 then [digit_char n] else digits10 (n div 10) @ [digit_char (n mod 10)])"

declare digits10.simps [simp del]

definition str_int :: "int \<Rightarrow> string" where
  \<comment> \<open>\<^verbatim>\<open>str(n)\<close>, which is also what \<^verbatim>\<open>f"{n}"\<close> gives\<close>
  "str_int n = (if n < 0 then ''-'' else '''') @ digits10 (nat \<bar>n\<bar>)"

definition format_05d :: "int \<Rightarrow> string" where
  \<comment> \<open>\<^verbatim>\<open>f"{n:05d}"\<close>: the sign, then zeros up to a total width of five, then the digits;
      a number that needs more than five characters is not cut\<close>
  "format_05d n =
     (let sign = (if n < 0 then ''-'' else '''');
          ds = digits10 (nat \<bar>n\<bar>)
      in sign @ replicate (5 - length sign - length ds) CHR ''0'' @ ds)"

definition frame_name :: "int \<Rightarrow> string" where
  \<comment> \<open>\<^verbatim>\<open>f'frame_{saved_count:05d}.png'\<close>\<close>
  "frame_name saved_count = ''frame_'' @ format_05d saved_count @ ''.png''"

subsection \<open>The library calls\<close>

definition os_path_join :: "string \<Rightarrow> string \<Rightarrow> string" where
  \<comment> \<open>\<^verbatim>\<open>posixpath.join\<close> with two arguments\<close>
  "os_path_join a b =
     (if (case b of [] \<Rightarrow> False | c # _ \<Rightarrow> c = CHR ''/'') then b
      else if a = [] \<or> last a = CHR ''/'' then a @ b
      else a @ ''/'' @ b)"

definition os_path_exists :: "string \<Rightarrow> 'px world \<Rightarrow> bool" where
  "os_path_exists p w = (fs w p \<noteq> None)"

definition mkdir :: "string \<Rightarrow> 'px world \<Rightarrow> (py_error + unit) \<times> 'px world" where
  \<comment> \<open>\<^verbatim>\<open>Path(p).mkdir(parents=True, exist_ok=True)\<close>: an existing directory is accepted, a
      path that names something else raises. The directories above \<open>p\<close> are not entries
      of the map.\<close>
  "mkdir p w =
     (case fs w p of
        None \<Rightarrow> (Inr (), emit (Mkdir p) (w\<lparr>fs := (fs w)(p \<mapsto> Dir)\<rparr>))
      | Some Dir \<Rightarrow> (Inr (), emit (Mkdir p) w)
      | Some _ \<Rightarrow> (Inl (FileExistsError p), emit (Mkdir p) w))"

record 'px capture =
  opened :: bool
  pending :: "'px image list"

definition VideoCapture :: "string \<Rightarrow> 'px world \<Rightarrow> 'px capture \<times> 'px world" where
  \<comment> \<open>\<^verbatim>\<open>cv2.VideoCapture(p)\<close> never raises: a path that cannot be opened gives a capture
      that is not opened\<close>
  "VideoCapture p w =
     ((case fs w p of
         Some (Video frames) \<Rightarrow> \<lparr>opened = True, pending = frames\<rparr>
       | _ \<Rightarrow> \<lparr>opened = False, pending = []\<rparr>),
      emit (Open_video p) w)"

definition isOpened :: "'px capture \<Rightarrow> bool" where
  "isOpened cap = opened cap"

definition cap_read ::
  "'px capture \<Rightarrow> 'px world \<Rightarrow> (bool \<times> 'px image option) \<times> 'px capture \<times> 'px world" where
  \<comment> \<open>\<^verbatim>\<open>cap.read()\<close>: the next frame with \<open>True\<close>, or \<open>(False, None)\<close> at the end\<close>
  "cap_read cap w =
     (case pending cap of
        [] \<Rightarrow> ((False, None), cap, emit Read_frame w)
      | f # rest \<Rightarrow> ((True, Some f), cap\<lparr>pending := rest\<rparr>, emit Read_frame w))"

definition cap_release :: "'px capture \<Rightarrow> 'px world \<Rightarrow> 'px capture \<times> 'px world" where
  "cap_release cap w = (cap\<lparr>opened := False\<rparr>, emit Release w)"

definition cv2_resize ::
  "'px image \<Rightarrow> int \<times> int \<Rightarrow> 'px interpolation \<Rightarrow> py_error + 'px image" where
  \<comment> \<open>\<^verbatim>\<open>cv2.resize(image, dsize, interpolation=...)\<close>: \<open>dsize\<close> is (width, height); the
      library rejects a size with a dimension that is not positive, and otherwise returns
      a raster of exactly that size\<close>
  "cv2_resize img dsize interpolation =
     (if fst dsize \<le> 0 \<or> snd dsize \<le> 0 then Inl Cv2Error
      else Inr \<lparr>width = fst dsize, height = snd dsize, pixels = interpolation img dsize\<rparr>)"

definition cv2_imwrite :: "string \<Rightarrow> 'px image \<Rightarrow> 'px world \<Rightarrow> bool \<times> 'px world" where
  \<comment> \<open>\<^verbatim>\<open>cv2.imwrite(path, img)\<close> returns whether the file was written; it cannot replace
      a directory\<close>
  "cv2_imwrite p img w =
     (if fs w p = Some Dir then (False, emit (Imwrite p img) w)
      else (True, emit (Imwrite p img) (w\<lparr>fs := (fs w)(p \<mapsto> Image img)\<rparr>)))"

section \<open>The functions of the module\<close>

definition resize_image ::
  "'px interpolation \<Rightarrow> 'px image \<Rightarrow> int \<times> int \<Rightarrow> py_error + 'px image" where
  "resize_image INTER_AREA img target_size = cv2_resize img target_size INTER_AREA"

text \<open>
  The \<^verbatim>\<open>while cap.isOpened()\<close> loop of \<^verbatim>\<open>extract_frames\<close>, with the two counters as
  arguments. It returns the value of \<^verbatim>\<open>saved_count\<close> at the \<^verbatim>\<open>break\<close> (or when the
  capture is not opened), or the exception that left the loop.
\<close>

function extract_loop ::
  "'px interpolation \<Rightarrow> string \<Rightarrow> int \<Rightarrow> int \<times> int \<Rightarrow> 'px capture \<Rightarrow> int \<Rightarrow> int \<Rightarrow> 'px world
     \<Rightarrow> (py_error + int) \<times> 'px capture \<times> 'px world" where
  "extract_loop INTER_AREA output_dir sample_rate target_size cap frame_count saved_count w =
     (if \<not> isOpened cap then (Inr saved_count, cap, w)
      else
        (case cap_read cap w of
           ((ret, frame), cap1, w1) \<Rightarrow>
             if \<not> ret then (Inr saved_count, cap1, w1)
             else if sample_rate = 0 then (Inl ZeroDivisionError, cap1, w1)
             else if frame_count mod sample_rate = 0 then
               (case resize_image INTER_AREA (the frame) target_size of
                  Inl e \<Rightarrow> (Inl e, cap1, w1)
                | Inr resized_frame \<Rightarrow>
                    let output_path = os_path_join output_dir (frame_name saved_count);
                        w2 = snd (cv2_imwrite output_path resized_frame w1)
                    in extract_loop INTER_AREA output_dir sample_rate target_size cap1
                         (frame_count + 1) (saved_count + 1) w2)
             else extract_loop INTER_AREA output_dir sample_rate target_size cap1
                    (frame_count + 1) saved_count w1))"
  by pat_completeness auto
termination
  by (relation "measure (\<lambda>(_, _, _, _, cap, _, _, _). length (pending cap))")
     (auto simp: cap_read_def split: list.splits)

declare extract_loop.simps [simp del]

definition extract_frames ::
  "'px interpolation \<Rightarrow> string \<Rightarrow> string \<Rightarrow> int \<Rightarrow> int \<times> int \<Rightarrow> 'px world
     \<Rightarrow> (py_error + int) \<times> 'px world" where
  "extract_frames INTER_AREA video_path output_dir sample_rate target_size w =
     (case VideoCapture video_path w of
        (cap, w1) \<Rightarrow>
          (case mkdir output_dir w1 of
             (Inl e, w2) \<Rightarrow> (Inl e, w2)
           | (Inr _, w2) \<Rightarrow>
               (case extract_loop INTER_AREA output_dir sample_rate target_size cap 0 0 w2 of
                  (Inl e, cap3, w3) \<Rightarrow> (Inl e, w3)
                | (Inr saved_count, cap3, w3) \<Rightarrow>
                    (Inr saved_count, snd (cap_release cap3 w3)))))"

definition process_local_video ::
  "'px interpolation \<Rightarrow> string \<Rightarrow> string \<Rightarrow> int \<Rightarrow> int \<times> int \<Rightarrow> 'px world
     \<Rightarrow> (py_error + int) \<times> 'px world" where
  "process_local_video INTER_AREA video_path output_dir sample_rate target_size w =
     (if \<not> os_path_exists video_path w
      then (Inl (FileNotFoundError (''Video file not found: '' @ video_path)), w)
      else
        let frames_dir = os_path_join output_dir ''frames'' in
        (case mkdir frames_dir w of
           (Inl e, w1) \<Rightarrow> (Inl e, w1)
         | (Inr _, w1) \<Rightarrow>
             let w2 = emit (Print (''Extracting frames from: '' @ video_path)) w1 in
             (case extract_frames INTER_AREA video_path frames_dir sample_rate target_size w2 of
                (Inl e, w3) \<Rightarrow> (Inl e, w3)
              | (Inr num_frames, w3) \<Rightarrow>
                  (Inr num_frames,
                   emit (Print (''Extracted '' @ str_int num_frames @ '' frames to '' @ frames_dir))
                     w3))))"

section \<open>Observing a run\<close>

text \<open>
  The raster that \<^verbatim>\<open>resize_image\<close> returns for a valid target size: the target's
  width and height, with the pixel content that the interpolation computes from the whole
  input raster.
\<close>

definition resized :: "'px interpolation \<Rightarrow> int \<times> int \<Rightarrow> 'px image \<Rightarrow> 'px image" where
  "resized INTER_AREA target_size img =
     \<lparr>width = fst target_size, height = snd target_size, pixels = INTER_AREA img target_size\<rparr>"

text \<open>
  The files that a sequence of calls writes, in order; and the same with, for each write,
  the number of frames read before it: the frame written is the one delivered by the read
  with that number, counted from 1.
\<close>

fun writes :: "'px event list \<Rightarrow> (string \<times> 'px image) list" where
  "writes [] = []"
| "writes (Imwrite p img # evs) = (p, img) # writes evs"
| "writes (_ # evs) = writes evs"

fun emitted :: "nat \<Rightarrow> 'px event list \<Rightarrow> (nat \<times> string \<times> 'px image) list" where
  "emitted n [] = []"
| "emitted n (Read_frame # evs) = emitted (Suc n) evs"
| "emitted n (Imwrite p img # evs) = (n, p, img) # emitted n evs"
| "emitted n (_ # evs) = emitted n evs"

text \<open>The calls that a run adds to the trace.\<close>

definition new_events :: "'px world \<Rightarrow> 'px world \<Rightarrow> 'px event list" where
  "new_events w w' = drop (length (trace w)) (trace w')"

definition extract_frames_events ::
  "'px interpolation \<Rightarrow> string \<Rightarrow> string \<Rightarrow> int \<Rightarrow> int \<times> int \<Rightarrow> 'px world \<Rightarrow> 'px event list" where
  "extract_frames_events INTER_AREA video_path output_dir sample_rate target_size w =
     new_events w (snd (extract_frames INTER_AREA video_path output_dir sample_rate target_size w))"

text \<open>Directory creation succeeds on a path that is free or already a directory.\<close>

definition creatable :: "string \<Rightarrow> 'px world \<Rightarrow> bool" where
  "creatable p w = (case fs w p of None \<Rightarrow> True | Some Dir \<Rightarrow> True | Some _ \<Rightarrow> False)"

text \<open>
  What the sampling contract prescribes for the frame at read index \<open>i\<close>: it is read, and it
  is written, resized, under the saved index \<open>i div r\<close> exactly when \<open>i mod r = 0\<close>.
\<close>

definition frame_events ::
  "'px interpolation \<Rightarrow> string \<Rightarrow> int \<Rightarrow> int \<times> int \<Rightarrow> nat \<times> 'px image \<Rightarrow> 'px event list" where
  "frame_events INTER_AREA output_dir r target_size p =
     Read_frame #
       (if int (fst p) mod r = 0
        then [Imwrite (os_path_join output_dir (frame_name (int (fst p) div r)))
                (resized INTER_AREA target_size (snd p))]
        else [])"

text \<open>
  The loop without the world: its result and the calls it makes, as a function of the
  frames still pending and of the two counters.
\<close>

fun loop_run ::
  "'px interpolation \<Rightarrow> string \<Rightarrow> int \<Rightarrow> int \<times> int \<Rightarrow> 'px image list \<Rightarrow> int \<Rightarrow> int
     \<Rightarrow> (py_error + int) \<times> 'px event list" where
  "loop_run INTER_AREA output_dir sample_rate target_size [] frame_count saved_count =
     (Inr saved_count, [Read_frame])"
| "loop_run INTER_AREA output_dir sample_rate target_size (frame # rest) frame_count saved_count =
     (if sample_rate = 0 then (Inl ZeroDivisionError, [Read_frame])
      else if frame_count mod sample_rate = 0 then
        (if fst target_size \<le> 0 \<or> snd target_size \<le> 0 then (Inl Cv2Error, [Read_frame])
         else
           (case loop_run INTER_AREA output_dir sample_rate target_size rest
                   (frame_count + 1) (saved_count + 1) of
              (res, evs) \<Rightarrow>
                (res,
                 Read_frame #
                 Imwrite (os_path_join output_dir (frame_name saved_count))
                   (resized INTER_AREA target_size frame) #
                 evs)))
      else
        (case loop_run INTER_AREA output_dir sample_rate target_size rest
                (frame_count + 1) saved_count of
           (res, evs) \<Rightarrow> (res, Read_frame # evs)))"

definition ceil_div :: "int \<Rightarrow> int \<Rightarrow> int" where
  "ceil_div x r = (x + r - 1) div r"

text \<open>Reading a decimal numeral back, to tell file names apart.\<close>

definition digit_value :: "char \<Rightarrow> nat" where
  "digit_value c = of_char c - 48"

definition decimal_value :: "string \<Rightarrow> nat" where
  "decimal_value s = foldl (\<lambda>a c. 10 * a + digit_value c) 0 s"

section \<open>Sample inputs\<close>

text \<open>
  Concrete inputs on which the theorems below are instantiated. The sample interpolation
  copies the pixel content; the frames of a sample clip are 1920 by 1080 and are told
  apart by their number.
\<close>

definition sample_interpolation :: "nat interpolation" where
  "sample_interpolation img dsize = pixels img"

definition sample_frame :: "nat \<Rightarrow> nat image" where
  "sample_frame n = \<lparr>width = 1920, height = 1080, pixels = n\<rparr>"

definition world_clip :: "nat \<Rightarrow> nat world" where
  "world_clip n = \<lparr>fs = [''clip.mov'' \<mapsto> Video (map sample_frame [0..<n])], trace = []\<rparr>"

definition world_empty :: "nat world" where
  "world_empty = \<lparr>fs = Map.empty, trace = []\<rparr>"

definition world_undecodable :: "nat world" where
  "world_undecodable = \<lparr>fs = [''notes.txt'' \<mapsto> Other], trace = []\<rparr>"

section \<open>The loop, step by step\<close>

lemma trace_emit [simp]: "trace (emit e w) = trace w @ [e]"
  by (simp add: emit_def)

lemma fs_emit [simp]: "fs (emit e w) = fs w"
  by (simp add: emit_def)

lemma trace_cv2_imwrite [simp]: "trace (snd (cv2_imwrite p img w)) = trace w @ [Imwrite p img]"
  by (simp add: cv2_imwrite_def)

lemma extract_loop_closed:
  "\<not> opened cap \<Longrightarrow>
     extract_loop I out r ts cap fc sc w = (Inr sc, cap, w)"
  by (subst extract_loop.simps) (simp add: isOpened_def)

lemma extract_loop_eof:
  "opened cap \<Longrightarrow> pending cap = [] \<Longrightarrow>
     extract_loop I out r ts cap fc sc w = (Inr sc, cap, emit Read_frame w)"
  by (subst extract_loop.simps) (simp add: isOpened_def cap_read_def)

lemma extract_loop_zero:
  "opened cap \<Longrightarrow> pending cap = f # rest \<Longrightarrow>
     extract_loop I out 0 ts cap fc sc w =
       (Inl ZeroDivisionError, cap\<lparr>pending := rest\<rparr>, emit Read_frame w)"
  by (subst extract_loop.simps) (simp add: isOpened_def cap_read_def)

lemma extract_loop_skip:
  "opened cap \<Longrightarrow> pending cap = f # rest \<Longrightarrow> r \<noteq> 0 \<Longrightarrow> fc mod r \<noteq> 0 \<Longrightarrow>
     extract_loop I out r ts cap fc sc w =
       extract_loop I out r ts (cap\<lparr>pending := rest\<rparr>) (fc + 1) sc (emit Read_frame w)"
  by (subst extract_loop.simps) (simp add: isOpened_def cap_read_def)

lemma extract_loop_bad_size:
  "opened cap \<Longrightarrow> pending cap = f # rest \<Longrightarrow> r \<noteq> 0 \<Longrightarrow> fc mod r = 0 \<Longrightarrow>
   fst ts \<le> 0 \<or> snd ts \<le> 0 \<Longrightarrow>
     extract_loop I out r ts cap fc sc w =
       (Inl Cv2Error, cap\<lparr>pending := rest\<rparr>, emit Read_frame w)"
  by (subst extract_loop.simps) (simp add: isOpened_def cap_read_def resize_image_def cv2_resize_def)

lemma extract_loop_keep:
  "opened cap \<Longrightarrow> pending cap = f # rest \<Longrightarrow> r \<noteq> 0 \<Longrightarrow> fc mod r = 0 \<Longrightarrow>
   0 < fst ts \<Longrightarrow> 0 < snd ts \<Longrightarrow>
     extract_loop I out r ts cap fc sc w =
       extract_loop I out r ts (cap\<lparr>pending := rest\<rparr>) (fc + 1) (sc + 1)
         (snd (cv2_imwrite (os_path_join out (frame_name sc)) (resized I ts f) (emit Read_frame w)))"
  by (subst extract_loop.simps)
     (simp add: isOpened_def cap_read_def resize_image_def cv2_resize_def Let_def resized_def)

lemma extract_loop_run:
  "opened cap \<Longrightarrow>
     fst (extract_loop I out r ts cap fc sc w) = fst (loop_run I out r ts (pending cap) fc sc) \<and>
     trace (snd (snd (extract_loop I out r ts cap fc sc w))) =
       trace w @ snd (loop_run I out r ts (pending cap) fc sc)"
proof (induction "pending cap" arbitrary: cap fc sc w)
  case Nil
  then show ?case
    using extract_loop_eof [of cap I out r ts fc sc w] by simp
next
  case (Cons f rest)
  let ?cap = "cap\<lparr>pending := rest\<rparr>"
  have pend: "pending cap = f # rest"
    using Cons.hyps(2) by simp
  have step: "rest = pending ?cap" "opened ?cap"
    using Cons.prems by simp_all
  note IH = Cons.hyps(1) [OF step]
  consider (zero) "r = 0"
    | (skip) "r \<noteq> 0" "fc mod r \<noteq> 0"
    | (bad) "r \<noteq> 0" "fc mod r = 0" "fst ts \<le> 0 \<or> snd ts \<le> 0"
    | (keep) "r \<noteq> 0" "fc mod r = 0" "0 < fst ts" "0 < snd ts"
    by linarith
  then show ?case
  proof cases
    case zero
    then show ?thesis
      using extract_loop_zero [OF Cons.prems pend, of I out ts fc sc w] pend by simp
  next
    case skip
    then show ?thesis
      using extract_loop_skip [OF Cons.prems pend skip, of I out ts sc w]
        IH [of "fc + 1" sc "emit Read_frame w"] pend
      by (simp add: split_beta)
  next
    case bad
    then show ?thesis
      using extract_loop_bad_size [OF Cons.prems pend bad, of I out sc w] pend by auto
  next
    case keep
    then show ?thesis
      using extract_loop_keep [OF Cons.prems pend keep, of I out sc w]
        IH [of "fc + 1" "sc + 1"] pend
      by (simp add: split_beta)
  qed
qed

lemma extract_loop_neg:
  "extract_loop I out (- r) ts cap fc sc w = extract_loop I out r ts cap fc sc w"
proof (cases "opened cap")
  case False
  then show ?thesis
    by (simp add: extract_loop_closed)
next
  case True
  then show ?thesis
  proof (induction "pending cap" arbitrary: cap fc sc w)
    case Nil
    then show ?case
      by (simp add: extract_loop_eof)
  next
    case (Cons f rest)
    let ?cap = "cap\<lparr>pending := rest\<rparr>"
    have pend: "pending cap = f # rest"
      using Cons.hyps(2) by simp
    have step: "rest = pending ?cap" "opened ?cap"
      using Cons.prems by simp_all
    note IH = Cons.hyps(1) [OF step]
    have m: "fc mod (- r) = 0 \<longleftrightarrow> fc mod r = 0"
      by auto
    consider (zero) "r = 0"
      | (skip) "r \<noteq> 0" "fc mod r \<noteq> 0"
      | (bad) "r \<noteq> 0" "fc mod r = 0" "fst ts \<le> 0 \<or> snd ts \<le> 0"
      | (keep) "r \<noteq> 0" "fc mod r = 0" "0 < fst ts" "0 < snd ts"
      by linarith
    then show ?case
    proof cases
      case zero
      then show ?thesis by simp
    next
      case skip
      then have "- r \<noteq> 0" "fc mod (- r) \<noteq> 0"
        using m by simp_all
      from extract_loop_skip [OF Cons.prems pend this] extract_loop_skip [OF Cons.prems pend skip]
      show ?thesis
        using IH by simp
    next
      case bad
      then have "- r \<noteq> 0" "fc mod (- r) = 0"
        using m by simp_all
      from extract_loop_bad_size [OF Cons.prems pend this bad(3)]
        extract_loop_bad_size [OF Cons.prems pend bad]
      show ?thesis
        by simp
    next
      case keep
      then have "- r \<noteq> 0" "fc mod (- r) = 0"
        using m by simp_all
      from extract_loop_keep [OF Cons.prems pend this keep(3,4)]
        extract_loop_keep [OF Cons.prems pend keep]
      show ?thesis
        using IH by simp
    qed
  qed
qed

section \<open>Arithmetic of the stride\<close>

lemma ceil_div_multiple:
  assumes "0 < r" "x mod r = 0"
  shows "ceil_div x r = x div r"
proof -
  have nz: "r \<noteq> 0" using assms(1) by simp
  have "x = (x div r) * r"
    using assms(2) by (simp add: mod_eq_0_iff_dvd)
  then have eq: "x + r - 1 = (r - 1) + (x div r) * r"
    by linarith
  have "(x + r - 1) div r = ((r - 1) + (x div r) * r) div r"
    by (simp only: eq)
  also have "\<dots> = x div r + (r - 1) div r"
    by (rule div_mult_self1 [OF nz])
  also have "(r - 1) div r = 0"
    using assms(1) by (simp add: div_pos_pos_trivial)
  finally show ?thesis
    by (simp add: ceil_div_def)
qed

lemma ceil_div_between:
  assumes "0 < r" "x mod r \<noteq> 0"
  shows "ceil_div x r = x div r + 1"
proof -
  have nz: "r \<noteq> 0" using assms(1) by simp
  have m: "0 \<le> x mod r - 1" "x mod r - 1 < r"
    using assms pos_mod_sign [of r x] pos_mod_bound [of r x] by linarith+
  have "x = x mod r + (x div r) * r"
    by simp
  then have eq: "x + r - 1 = (x mod r - 1) + (x div r + 1) * r"
    by (simp add: algebra_simps)
  have "(x + r - 1) div r = ((x mod r - 1) + (x div r + 1) * r) div r"
    by (simp only: eq)
  also have "\<dots> = (x div r + 1) + (x mod r - 1) div r"
    by (rule div_mult_self1 [OF nz])
  also have "(x mod r - 1) div r = 0"
    using m by (simp add: div_pos_pos_trivial)
  finally show ?thesis
    by (simp add: ceil_div_def)
qed

lemma ceil_div_Suc:
  assumes "0 < r"
  shows "ceil_div (x + 1) r = x div r + 1"
proof -
  have "ceil_div (x + 1) r = (x + r) div r"
    by (simp add: ceil_div_def)
  then show ?thesis
    using assms by simp
qed

lemma ceil_div_0: "0 < r \<Longrightarrow> ceil_div 0 r = 0"
  by (simp add: ceil_div_def)

lemma ceil_div_1: "ceil_div x 1 = x"
  by (simp add: ceil_div_def)

lemma ceiling_ceil_div:
  assumes "0 < r"
  shows "\<lceil>real_of_int x / real_of_int r\<rceil> = ceil_div x r"
proof -
  have nz: "r \<noteq> 0" using assms by simp
  have "\<lceil>real_of_int x / real_of_int r\<rceil> = - (- x div r)"
    by (rule ceiling_divide_eq_div)
  also have "\<dots> = ceil_div x r"
  proof (cases "x mod r = 0")
    case True
    then show ?thesis
      using ceil_div_multiple [OF assms True] by (simp add: zdiv_zminus1_eq_if [OF nz])
  next
    case False
    then show ?thesis
      using ceil_div_between [OF assms False] by (simp add: zdiv_zminus1_eq_if [OF nz])
  qed
  finally show ?thesis .
qed

section \<open>The calls of the loop\<close>

lemma loop_run_stride:
  assumes "0 < r" "0 < fst ts" "0 < snd ts"
  shows "loop_run I out r ts frames (int k) (ceil_div (int k) r) =
           (Inr (ceil_div (int k + int (length frames)) r),
            concat (map (frame_events I out r ts) (enumerate k frames)) @ [Read_frame])"
proof (induction frames arbitrary: k)
  case Nil
  show ?case by simp
next
  case (Cons f rest)
  have nz: "r \<noteq> 0" using assms by simp
  have suc: "int (Suc k) = int k + 1" by simp
  have len: "int k + 1 + int (length rest) = int k + int (length (f # rest))" by simp
  have IH: "loop_run I out r ts rest (int k + 1) (int k div r + 1) =
              (Inr (ceil_div (int k + int (length (f # rest))) r),
               concat (map (frame_events I out r ts) (enumerate (Suc k) rest)) @ [Read_frame])"
    using Cons.IH [of "Suc k"] unfolding suc len ceil_div_Suc [OF assms(1)] .
  show ?case
  proof (cases "int k mod r = 0")
    case True
    have sc: "ceil_div (int k) r = int k div r"
      by (rule ceil_div_multiple [OF assms(1) True])
    have ev: "concat (map (frame_events I out r ts) (enumerate k (f # rest))) =
                Read_frame # Imwrite (os_path_join out (frame_name (int k div r))) (resized I ts f) #
                  concat (map (frame_events I out r ts) (enumerate (Suc k) rest))"
      using True by (simp add: frame_events_def)
    have "loop_run I out r ts (f # rest) (int k) (int k div r) =
            (case loop_run I out r ts rest (int k + 1) (int k div r + 1) of
               (res, evs) \<Rightarrow>
                 (res, Read_frame #
                    Imwrite (os_path_join out (frame_name (int k div r))) (resized I ts f) # evs))"
      using True nz assms(2,3) by simp
    then show ?thesis
      unfolding sc IH ev by simp
  next
    case False
    have sc: "ceil_div (int k) r = int k div r + 1"
      by (rule ceil_div_between [OF assms(1) False])
    have ev: "concat (map (frame_events I out r ts) (enumerate k (f # rest))) =
                Read_frame # concat (map (frame_events I out r ts) (enumerate (Suc k) rest))"
      using False by (simp add: frame_events_def)
    have "loop_run I out r ts (f # rest) (int k) (int k div r + 1) =
            (case loop_run I out r ts rest (int k + 1) (int k div r + 1) of
               (res, evs) \<Rightarrow> (res, Read_frame # evs))"
      using False nz by simp
    then show ?thesis
      unfolding sc IH ev by simp
  qed
qed

lemma writes_append: "writes (xs @ ys) = writes xs @ writes ys"
  by (induction xs rule: writes.induct) simp_all

lemma writes_emitted: "writes evs = map snd (emitted n evs)"
  by (induction n evs rule: emitted.induct) simp_all

lemma emitted_append_silent: "writes ys = [] \<Longrightarrow> emitted n (xs @ ys) = emitted n xs"
proof (induction n xs rule: emitted.induct)
  case (1 n)
  then show ?case
    using writes_emitted [of ys n] by simp
qed simp_all

lemma emitted_loop_events:
  "emitted n (evs @ (case res of Inl e \<Rightarrow> [] | Inr c \<Rightarrow> [Release])) = emitted n evs"
  by (cases res) (simp_all add: emitted_append_silent)

lemma writes_frame_events_1:
  "writes (concat (map (frame_events I out 1 ts) xs) @ evs) =
     map (\<lambda>(i, f). (os_path_join out (frame_name (int i)), resized I ts f)) xs @ writes evs"
  by (induction xs) (simp_all add: frame_events_def split_beta)

lemma loop_run_count:
  "fst (loop_run I out r ts frames fc sc) = Inr c \<Longrightarrow>
     c = sc + int (length (writes (snd (loop_run I out r ts frames fc sc))))"
proof (induction frames arbitrary: fc sc)
  case Nil
  then show ?case by simp
next
  case (Cons f rest)
  then show ?case
    by (auto simp: split_beta split: if_splits dest!: Cons.IH)
qed

lemma loop_run_paths:
  "map fst (writes (snd (loop_run I out r ts frames fc sc))) =
     map (\<lambda>j. os_path_join out (frame_name (sc + int j)))
       [0..<length (writes (snd (loop_run I out r ts frames fc sc)))]"
proof (induction frames arbitrary: fc sc)
  case Nil
  show ?case by simp
next
  case (Cons f rest)
  have shift: "\<And>j. sc + 1 + int j = sc + int (Suc j)"
    by simp
  show ?case
    using Cons.IH [of "fc + 1" "sc + 1"] Cons.IH [of "fc + 1" sc]
    by (simp add: split_beta map_upt_Suc shift del: upt_Suc of_nat_Suc)
qed

lemma loop_run_dims:
  "(p, img) \<in> set (writes (snd (loop_run I out r ts frames fc sc))) \<Longrightarrow>
     width img = fst ts \<and> height img = snd ts"
proof (induction frames arbitrary: fc sc)
  case Nil
  then show ?case by simp
next
  case (Cons f rest)
  then show ?case
    by (auto simp: split_beta resized_def split: if_splits)
qed

lemma loop_run_emitted_frame:
  "(k, p, img) \<in> set (emitted n (snd (loop_run I out r ts frames fc sc))) \<Longrightarrow>
     n < k \<and> k \<le> n + length frames \<and> img = resized I ts (frames ! (k - n - 1))"
proof (induction frames arbitrary: n fc sc)
  case Nil
  then show ?case by simp
next
  case (Cons f rest)
  show ?case
  proof (cases "(k, p, img) \<in> set (emitted (Suc n) (snd (loop_run I out r ts rest (fc + 1) (sc + 1))))
      \<or> (k, p, img) \<in> set (emitted (Suc n) (snd (loop_run I out r ts rest (fc + 1) sc)))")
    case True
    then have *: "Suc n < k \<and> k \<le> Suc n + length rest \<and> img = resized I ts (rest ! (k - Suc n - 1))"
      using Cons.IH by blast
    then have "k - n - 1 = Suc (k - Suc n - 1)"
      by linarith
    then show ?thesis
      using * by simp
  next
    case False
    then show ?thesis
      using Cons.prems by (auto simp: split_beta split: if_splits)
  qed
qed

lemma loop_run_emitted_sorted:
  "sorted_wrt (<) (map fst (emitted n (snd (loop_run I out r ts frames fc sc))))"
proof (induction frames arbitrary: n fc sc)
  case Nil
  show ?case by simp
next
  case (Cons f rest)
  have later: "\<And>fc' sc' x. x \<in> set (emitted (Suc n) (snd (loop_run I out r ts rest fc' sc')))
      \<Longrightarrow> Suc n < fst x"
    using loop_run_emitted_frame [of _ _ _ "Suc n" I out r ts rest] by (metis prod.collapse)
  show ?case
    using Cons.IH [of "Suc n"] later
    by (auto simp: split_beta)
qed

section \<open>Runs of \<^verbatim>\<open>extract_frames\<close>\<close>

lemma new_events_append: "trace w' = trace w @ evs \<Longrightarrow> new_events w w' = evs"
  by (simp add: new_events_def)

lemma mkdir_creatable:
  "creatable p w \<Longrightarrow> fst (mkdir p w) = Inr () \<and> trace (snd (mkdir p w)) = trace w @ [Mkdir p]"
  by (auto simp: creatable_def mkdir_def split: option.splits node.splits)

lemma mkdir_not_creatable:
  "\<not> creatable p w \<Longrightarrow>
     fst (mkdir p w) = Inl (FileExistsError p) \<and> trace (snd (mkdir p w)) = trace w @ [Mkdir p]"
  by (auto simp: creatable_def mkdir_def split: option.splits node.splits)

lemma extract_frames_not_creatable:
  assumes "\<not> creatable output_dir w"
  shows "fst (extract_frames I video_path output_dir r ts w) = Inl (FileExistsError output_dir)"
    and "trace (snd (extract_frames I video_path output_dir r ts w)) =
           trace w @ [Open_video video_path, Mkdir output_dir]"
proof -
  let ?w1 = "emit (Open_video video_path) w"
  have "\<not> creatable output_dir ?w1"
    using assms by (simp add: creatable_def)
  from mkdir_not_creatable [OF this]
  show "fst (extract_frames I video_path output_dir r ts w) = Inl (FileExistsError output_dir)"
    and "trace (snd (extract_frames I video_path output_dir r ts w)) =
           trace w @ [Open_video video_path, Mkdir output_dir]"
    by (auto simp: extract_frames_def VideoCapture_def split: prod.splits sum.splits)
qed

lemma extract_frames_unopened:
  assumes "creatable output_dir w" "\<And>frames. fs w video_path \<noteq> Some (Video frames)"
  shows "fst (extract_frames I video_path output_dir r ts w) = Inr 0"
    and "trace (snd (extract_frames I video_path output_dir r ts w)) =
           trace w @ [Open_video video_path, Mkdir output_dir, Release]"
proof -
  let ?w1 = "emit (Open_video video_path) w"
  let ?cap = "\<lparr>opened = False, pending = []\<rparr> :: 'a capture"
  have cap: "VideoCapture video_path w = (?cap, ?w1)"
    using assms(2) by (auto simp: VideoCapture_def split: option.splits node.splits)
  have "creatable output_dir ?w1"
    using assms(1) by (simp add: creatable_def)
  from mkdir_creatable [OF this] cap
  show "fst (extract_frames I video_path output_dir r ts w) = Inr 0"
    and "trace (snd (extract_frames I video_path output_dir r ts w)) =
           trace w @ [Open_video video_path, Mkdir output_dir, Release]"
    by (auto simp: extract_frames_def extract_loop_closed cap_release_def
          split: prod.splits sum.splits)
qed

lemma extract_frames_video:
  assumes "creatable output_dir w" "fs w video_path = Some (Video frames)"
  shows "fst (extract_frames I video_path output_dir r ts w) =
           fst (loop_run I output_dir r ts frames 0 0)"
    and "trace (snd (extract_frames I video_path output_dir r ts w)) =
           trace w @ [Open_video video_path, Mkdir output_dir] @
             snd (loop_run I output_dir r ts frames 0 0) @
             (case fst (loop_run I output_dir r ts frames 0 0) of
                Inl e \<Rightarrow> [] | Inr c \<Rightarrow> [Release])"
proof -
  let ?w1 = "emit (Open_video video_path) w"
  let ?cap = "\<lparr>opened = True, pending = frames\<rparr>"
  have cap: "VideoCapture video_path w = (?cap, ?w1)"
    using assms(2) by (simp add: VideoCapture_def)
  have "creatable output_dir ?w1"
    using assms(1) by (simp add: creatable_def)
  from mkdir_creatable [OF this]
  obtain u w2 where mk: "mkdir output_dir ?w1 = (Inr u, w2)"
    and tr2: "trace w2 = trace w @ [Open_video video_path, Mkdir output_dir]"
    by (cases "mkdir output_dir ?w1") auto
  obtain res cap3 w3 where loop: "extract_loop I output_dir r ts ?cap 0 0 w2 = (res, cap3, w3)"
    by (cases "extract_loop I output_dir r ts ?cap 0 0 w2") auto
  have run: "res = fst (loop_run I output_dir r ts frames 0 0)"
    "trace w3 = trace w2 @ snd (loop_run I output_dir r ts frames 0 0)"
    using extract_loop_run [of ?cap I output_dir r ts 0 0 w2] by (simp_all add: loop)
  have ef: "extract_frames I video_path output_dir r ts w =
              (case res of Inl e \<Rightarrow> (Inl e, w3)
               | Inr saved_count \<Rightarrow> (Inr saved_count, snd (cap_release cap3 w3)))"
    by (simp add: extract_frames_def cap mk loop split: sum.splits)
  show "fst (extract_frames I video_path output_dir r ts w) =
          fst (loop_run I output_dir r ts frames 0 0)"
    unfolding ef run(1) [symmetric] by (cases res) simp_all
  show "trace (snd (extract_frames I video_path output_dir r ts w)) =
           trace w @ [Open_video video_path, Mkdir output_dir] @
             snd (loop_run I output_dir r ts frames 0 0) @
             (case fst (loop_run I output_dir r ts frames 0 0) of
                Inl e \<Rightarrow> [] | Inr c \<Rightarrow> [Release])"
    unfolding ef run(1) [symmetric]
    by (cases res) (simp_all add: run(2) tr2 cap_release_def)
qed

lemma extract_frames_neg:
  "extract_frames I video_path output_dir (- r) ts w = extract_frames I video_path output_dir r ts w"
  unfolding extract_frames_def extract_loop_neg ..

lemma extract_frames_stride:
  assumes "1 \<le> r" "0 < fst ts" "0 < snd ts" "creatable output_dir w"
    "fs w video_path = Some (Video frames)"
  shows "fst (extract_frames I video_path output_dir r ts w) = Inr (ceil_div (int (length frames)) r)"
    and "trace (snd (extract_frames I video_path output_dir r ts w)) =
           trace w @ [Open_video video_path, Mkdir output_dir] @
             concat (map (frame_events I output_dir r ts) (enumerate 0 frames)) @
             [Read_frame, Release]"
proof -
  have r: "0 < r" using assms(1) by simp
  have "loop_run I output_dir r ts frames 0 0 =
          (Inr (ceil_div (int (length frames)) r),
           concat (map (frame_events I output_dir r ts) (enumerate 0 frames)) @ [Read_frame])"
    using loop_run_stride [OF r assms(2,3), of I output_dir frames 0] by (simp add: ceil_div_0 [OF r])
  then show "fst (extract_frames I video_path output_dir r ts w) = Inr (ceil_div (int (length frames)) r)"
    and "trace (snd (extract_frames I video_path output_dir r ts w)) =
           trace w @ [Open_video video_path, Mkdir output_dir] @
             concat (map (frame_events I output_dir r ts) (enumerate 0 frames)) @
             [Read_frame, Release]"
    using extract_frames_video [OF assms(4,5), of I r ts] by simp_all
qed

lemma extract_frames_events_eq:
  "extract_frames_events I video_path output_dir r ts w =
     Open_video video_path # Mkdir output_dir #
       (if \<not> creatable output_dir w then []
        else
          (case fs w video_path of
             Some (Video frames) \<Rightarrow>
               snd (loop_run I output_dir r ts frames 0 0) @
                 (case fst (loop_run I output_dir r ts frames 0 0) of
                    Inl e \<Rightarrow> [] | Inr c \<Rightarrow> [Release])
           | _ \<Rightarrow> [Release]))"
proof (cases "creatable output_dir w")
  case False
  then show ?thesis
    using extract_frames_not_creatable(2) [OF False, of I video_path r ts]
    by (simp add: extract_frames_events_def new_events_append)
next
  case True
  show ?thesis
  proof (cases "\<exists>frames. fs w video_path = Some (Video frames)")
    case True
    then obtain frames where v: "fs w video_path = Some (Video frames)"
      by blast
    show ?thesis
      using extract_frames_video(2) [OF \<open>creatable output_dir w\<close> v, of I r ts] v
        \<open>creatable output_dir w\<close>
      by (simp add: extract_frames_events_def new_events_append)
  next
    case False
    then have nv: "\<And>frames. fs w video_path \<noteq> Some (Video frames)"
      by blast
    show ?thesis
      using extract_frames_unopened(2) [OF True nv, of I r ts] nv True
      by (simp add: extract_frames_events_def new_events_append split: option.splits node.splits)
  qed
qed

lemma extract_frames_events_stride:
  assumes "1 \<le> r" "0 < fst ts" "0 < snd ts" "creatable output_dir w"
    "fs w video_path = Some (Video frames)"
  shows "extract_frames_events I video_path output_dir r ts w =
           [Open_video video_path, Mkdir output_dir] @
             concat (map (frame_events I output_dir r ts) (enumerate 0 frames)) @
             [Read_frame, Release]"
  using extract_frames_stride(2) [OF assms, of I]
  by (simp add: extract_frames_events_def new_events_append)

lemma emitted_extract_frames_events:
  "emitted 0 (extract_frames_events I video_path output_dir r ts w) =
     (if \<not> creatable output_dir w then []
      else
        (case fs w video_path of
           Some (Video frames) \<Rightarrow> emitted 0 (snd (loop_run I output_dir r ts frames 0 0))
         | _ \<Rightarrow> []))"
proof (cases "fs w video_path")
  case None
  then show ?thesis
    by (simp add: extract_frames_events_eq)
next
  case (Some nd)
  then show ?thesis
    by (cases nd) (simp_all add: extract_frames_events_eq emitted_loop_events)
qed

lemma writes_extract_frames_events:
  "writes (extract_frames_events I video_path output_dir r ts w) =
     (if \<not> creatable output_dir w then []
      else
        (case fs w video_path of
           Some (Video frames) \<Rightarrow> writes (snd (loop_run I output_dir r ts frames 0 0))
         | _ \<Rightarrow> []))"
  unfolding writes_emitted [of _ 0] emitted_extract_frames_events
  by (simp split: option.splits node.splits)

section \<open>File names\<close>

lemma digit_value_digit_char: "d < 10 \<Longrightarrow> digit_value (digit_char d) = d"
proof -
  assume "d < 10"
  then have "d \<in> {0, 1, 2, 3, 4, 5, 6, 7, 8, 9}"
    by auto
  then show ?thesis
    by (auto simp: digit_value_def digit_char_def)
qed

lemma decimal_value_digits10: "decimal_value (digits10 n) = n"
proof (induction n rule: digits10.induct)
  case (1 n)
  show ?case
  proof (cases "n < 10")
    case True
    then show ?thesis
      by (subst digits10.simps) (simp add: decimal_value_def digit_value_digit_char)
  next
    case False
    then have "decimal_value (digits10 (n div 10)) = n div 10"
      using "1.IH" by simp
    then have "decimal_value (digits10 (n div 10) @ [digit_char (n mod 10)]) =
        10 * (n div 10) + n mod 10"
      by (simp add: decimal_value_def digit_value_digit_char)
    then show ?thesis
      using False by (subst digits10.simps) simp
  qed
qed

lemma decimal_value_zeros: "decimal_value (replicate k CHR ''0'' @ s) = decimal_value s"
proof -
  have "foldl (\<lambda>a c. 10 * a + digit_value c) 0 (replicate k CHR ''0'') = 0"
    by (induction k) (simp_all add: digit_value_def)
  then show ?thesis
    by (simp add: decimal_value_def)
qed

lemma decimal_value_format_05d: "0 \<le> n \<Longrightarrow> decimal_value (format_05d n) = nat n"
  by (simp add: format_05d_def Let_def decimal_value_zeros decimal_value_digits10)

lemma format_05d_inject:
  assumes "0 \<le> m" "0 \<le> n" "format_05d m = format_05d n"
  shows "m = n"
proof -
  have "nat m = nat n"
    using decimal_value_format_05d [OF assms(1)] decimal_value_format_05d [OF assms(2)] assms(3)
    by simp
  then show ?thesis
    using assms(1,2) by simp
qed

lemma os_path_join_frame_name:
  "os_path_join out (frame_name k) =
     (if out = [] \<or> last out = CHR ''/'' then out else out @ ''/'') @ frame_name k"
  by (simp add: os_path_join_def frame_name_def)

lemma frame_path_inject:
  assumes "0 \<le> m" "0 \<le> n"
    "os_path_join out (frame_name m) = os_path_join out (frame_name n)"
  shows "m = n"
proof -
  have "frame_name m = frame_name n"
    using assms(3) unfolding os_path_join_frame_name by simp
  then have "format_05d m = format_05d n"
    by (simp add: frame_name_def)
  then show ?thesis
    using format_05d_inject [OF assms(1,2)] by simp
qed

lemma frame_paths_distinct:
  "distinct (map (\<lambda>j. os_path_join out (frame_name (int j))) [0..<n])"
proof -
  have "inj_on (\<lambda>j. os_path_join out (frame_name (int j))) (set [0..<n])"
  proof (rule inj_onI)
    fix i j
    assume "os_path_join out (frame_name (int i)) = os_path_join out (frame_name (int j))"
    then have "int i = int j"
      by (rule frame_path_inject [rotated 2]) simp_all
    then show "i = j"
      by simp
  qed
  then show ?thesis
    by (simp add: distinct_map)
qed

lemma length_digits10_bound: "n < 10 ^ Suc k \<Longrightarrow> length (digits10 n) \<le> Suc k"
proof (induction k arbitrary: n)
  case 0
  then show ?case
    by (subst digits10.simps) simp
next
  case (Suc k)
  show ?case
  proof (cases "n < 10")
    case True
    then show ?thesis
      by (subst digits10.simps) simp
  next
    case False
    have "n div 10 < 10 ^ Suc k"
      using Suc.prems by (simp add: less_mult_imp_div_less)
    then have "length (digits10 (n div 10)) \<le> Suc k"
      by (rule Suc.IH)
    then show ?thesis
      using False by (subst digits10.simps) simp
  qed
qed

lemma length_digits10_small: "n < 100000 \<Longrightarrow> length (digits10 n) \<le> 5"
  using length_digits10_bound [of n 4] by simp

lemma length_format_05d: "0 \<le> n \<Longrightarrow> n < 100000 \<Longrightarrow> length (format_05d n) = 5"
  using length_digits10_small [of "nat n"] by (simp add: format_05d_def Let_def)

lemma frame_name_0: "frame_name 0 = ''frame_00000.png''"
  by code_simp

lemma length_digits10_lower: "10 ^ k \<le> n \<Longrightarrow> k < length (digits10 n)"
proof (induction k arbitrary: n)
  case 0
  show ?case
    by (subst digits10.simps) simp
next
  case (Suc k)
  then have big: "\<not> n < 10"
    by (cases "n < 10") (auto simp: not_le dest: less_le_trans [of n 10 "10 * 10 ^ k"])
  have "10 ^ k \<le> n div 10"
    using Suc.prems by (simp add: less_eq_div_iff_mult_less_eq mult.commute)
  then have "k < length (digits10 (n div 10))"
    by (rule Suc.IH)
  then show ?case
    using big by (subst digits10.simps) simp
qed

lemma format_05d_wide:
  assumes "100000 \<le> n"
  shows "format_05d n = str_int n" "5 < length (format_05d n)"
proof -
  have "(10::nat) ^ 5 \<le> nat n"
    using assms by simp
  then have len: "5 < length (digits10 (nat n))"
    by (rule length_digits10_lower)
  then show "format_05d n = str_int n" "5 < length (format_05d n)"
    using assms by (simp_all add: format_05d_def str_int_def Let_def)
qed

lemma str_int_100000: "str_int 100000 = ''100000''"
  by (simp add: str_int_def digits10.simps digit_char_def)

lemma format_05d_100000: "format_05d 100000 = ''100000''"
  using format_05d_wide(1) [of 100000] by (simp add: str_int_100000)

lemma frame_name_100000: "frame_name 100000 = ''frame_100000.png''"
  by (simp add: frame_name_def format_05d_100000)

lemma frame_path_100000: "os_path_join ''out'' (frame_name 100000) = ''out/frame_100000.png''"
  by (simp add: frame_name_100000 os_path_join_def)

lemma length_format_05d_100000: "length (format_05d 100000) = 6"
  by (simp add: format_05d_100000)

lemma fs_mkdir_creatable: "creatable p w \<Longrightarrow> fs (snd (mkdir p w)) = (fs w)(p \<mapsto> Dir)"
  by (auto simp: creatable_def mkdir_def split: option.splits node.splits)

section \<open>Runs of \<^verbatim>\<open>process_local_video\<close>\<close>

lemma process_local_video_unopened:
  assumes "\<And>frames. fs w video_path \<noteq> Some (Video frames)" "os_path_exists video_path w"
    "creatable (os_path_join output_dir ''frames'') w"
  shows "fst (process_local_video I video_path output_dir r ts w) = Inr 0"
proof -
  let ?fd = "os_path_join output_dir ''frames''"
  obtain u w1 where mk: "mkdir ?fd w = (Inr u, w1)" and fs1: "fs w1 = (fs w)(?fd \<mapsto> Dir)"
    using mkdir_creatable [OF assms(3)] fs_mkdir_creatable [OF assms(3)]
    by (cases "mkdir ?fd w") auto
  let ?w2 = "emit (Print (''Extracting frames from: '' @ video_path)) w1"
  have c2: "creatable ?fd ?w2"
    by (simp add: creatable_def fs1)
  have nv2: "\<And>frames. fs ?w2 video_path \<noteq> Some (Video frames)"
    using assms(1) by (simp add: fs1)
  have "fst (extract_frames I video_path ?fd r ts ?w2) = Inr 0"
    by (rule extract_frames_unopened(1) [OF c2 nv2])
  then show ?thesis
    using assms(2) mk
    by (cases "extract_frames I video_path ?fd r ts ?w2")
       (simp add: process_local_video_def Let_def)
qed

lemma process_local_video_not_creatable:
  assumes "os_path_exists video_path w" "\<not> creatable (os_path_join output_dir ''frames'') w"
  shows "fst (process_local_video I video_path output_dir r ts w) =
           Inl (FileExistsError (os_path_join output_dir ''frames''))"
  using assms mkdir_not_creatable [OF assms(2)]
  by (cases "mkdir (os_path_join output_dir ''frames'') w")
     (simp add: process_local_video_def Let_def)

section \<open>A sample run\<close>

lemma clip10_hyps:
  "(1::int) \<le> 3" "0 < fst (224::int, 224::int)" "0 < snd (224::int, 224::int)"
  "creatable ''out'' (world_clip 10)"
  "fs (world_clip 10) ''clip.mov'' = Some (Video (map sample_frame [0..<10]))"
  by (simp_all add: world_clip_def creatable_def)

lemma clip10_events:
  "extract_frames_events sample_interpolation ''clip.mov'' ''out'' 3 (224, 224) (world_clip 10) =
     [Open_video ''clip.mov'', Mkdir ''out'',
      Read_frame, Imwrite ''out/frame_00000.png'' \<lparr>width = 224, height = 224, pixels = 0\<rparr>,
      Read_frame, Read_frame,
      Read_frame, Imwrite ''out/frame_00001.png'' \<lparr>width = 224, height = 224, pixels = 3\<rparr>,
      Read_frame, Read_frame,
      Read_frame, Imwrite ''out/frame_00002.png'' \<lparr>width = 224, height = 224, pixels = 6\<rparr>,
      Read_frame, Read_frame,
      Read_frame, Imwrite ''out/frame_00003.png'' \<lparr>width = 224, height = 224, pixels = 9\<rparr>,
      Read_frame, Release]"
proof -
  have "concat (map (frame_events sample_interpolation ''out'' 3 (224, 224))
             (enumerate 0 (map sample_frame [0..<10]))) =
     [Read_frame, Imwrite ''out/frame_00000.png'' \<lparr>width = 224, height = 224, pixels = 0\<rparr>,
      Read_frame, Read_frame,
      Read_frame, Imwrite ''out/frame_00001.png'' \<lparr>width = 224, height = 224, pixels = 3\<rparr>,
      Read_frame, Read_frame,
      Read_frame, Imwrite ''out/frame_00002.png'' \<lparr>width = 224, height = 224, pixels = 6\<rparr>,
      Read_frame, Read_frame,
      Read_frame, Imwrite ''out/frame_00003.png'' \<lparr>width = 224, height = 224, pixels = 9\<rparr>]"
    by code_simp
  then show ?thesis
    using extract_frames_events_stride [OF clip10_hyps, of sample_interpolation] by simp
qed

section \<open>Sampling by a positive stride\<close>

text \<open>
  C1. For every sample rate \<open>r \<ge> 1\<close> and every source of \<open>N\<close> frames, written to a
  directory that can be created with a valid target size, \<^verbatim>\<open>extract_frames\<close> returns
  \<open>ceil (N / r)\<close>, and the calls of the run are: opening the source, creating the directory,
  then for each frame in order its read, followed by the write of the resized frame exactly
  when the read index \<open>i\<close> satisfies \<open>i mod r = 0\<close>, then the read that finds the end, and
  the release. For \<open>N = 10\<close>, \<open>r = 3\<close> the frames 0, 3, 6, 9 are written and the count
  is 4; for \<open>N = 5\<close>, \<open>r = 30\<close> only frame 0 is.
\<close>

theorem extract_frames_count_and_stride:
  assumes "1 \<le> r" "0 < fst target_size" "0 < snd target_size" "creatable output_dir w"
    "fs w video_path = Some (Video frames)"
  shows "fst (extract_frames INTER_AREA video_path output_dir r target_size w) =
           Inr \<lceil>real (length frames) / real_of_int r\<rceil> \<and>
         extract_frames_events INTER_AREA video_path output_dir r target_size w =
           [Open_video video_path, Mkdir output_dir] @
             concat (map (frame_events INTER_AREA output_dir r target_size) (enumerate 0 frames)) @
             [Read_frame, Release]"
proof -
  have r: "0 < r" using assms(1) by simp
  have "\<lceil>real (length frames) / real_of_int r\<rceil> = ceil_div (int (length frames)) r"
    using ceiling_ceil_div [OF r, of "int (length frames)"] by simp
  then show ?thesis
    using extract_frames_stride(1) [OF assms, of INTER_AREA]
      extract_frames_events_stride [OF assms, of INTER_AREA]
    by simp
qed

theorem extract_frames_count_and_stride_witness:
  "fst (extract_frames sample_interpolation ''clip.mov'' ''out'' 3 (224, 224) (world_clip 10)) = Inr 4 \<and>
   extract_frames_events sample_interpolation ''clip.mov'' ''out'' 3 (224, 224) (world_clip 10) =
     [Open_video ''clip.mov'', Mkdir ''out'',
      Read_frame, Imwrite ''out/frame_00000.png'' \<lparr>width = 224, height = 224, pixels = 0\<rparr>,
      Read_frame, Read_frame,
      Read_frame, Imwrite ''out/frame_00001.png'' \<lparr>width = 224, height = 224, pixels = 3\<rparr>,
      Read_frame, Read_frame,
      Read_frame, Imwrite ''out/frame_00002.png'' \<lparr>width = 224, height = 224, pixels = 6\<rparr>,
      Read_frame, Read_frame,
      Read_frame, Imwrite ''out/frame_00003.png'' \<lparr>width = 224, height = 224, pixels = 9\<rparr>,
      Read_frame, Release] \<and>
   fst (extract_frames sample_interpolation ''clip.mov'' ''out'' 30 (224, 224) (world_clip 5)) = Inr 1 \<and>
   extract_frames_events sample_interpolation ''clip.mov'' ''out'' 30 (224, 224) (world_clip 5) =
     [Open_video ''clip.mov'', Mkdir ''out'',
      Read_frame, Imwrite ''out/frame_00000.png'' \<lparr>width = 224, height = 224, pixels = 0\<rparr>,
      Read_frame, Read_frame, Read_frame, Read_frame, Read_frame, Release]"
proof -
  have a: "concat (map (frame_events sample_interpolation ''out'' 3 (224, 224))
             (enumerate 0 (map sample_frame [0..<10]))) =
     [Read_frame, Imwrite ''out/frame_00000.png'' \<lparr>width = 224, height = 224, pixels = 0\<rparr>,
      Read_frame, Read_frame,
      Read_frame, Imwrite ''out/frame_00001.png'' \<lparr>width = 224, height = 224, pixels = 3\<rparr>,
      Read_frame, Read_frame,
      Read_frame, Imwrite ''out/frame_00002.png'' \<lparr>width = 224, height = 224, pixels = 6\<rparr>,
      Read_frame, Read_frame,
      Read_frame, Imwrite ''out/frame_00003.png'' \<lparr>width = 224, height = 224, pixels = 9\<rparr>]"
    by code_simp
  have b: "concat (map (frame_events sample_interpolation ''out'' 30 (224, 224))
             (enumerate 0 (map sample_frame [0..<5]))) =
     [Read_frame, Imwrite ''out/frame_00000.png'' \<lparr>width = 224, height = 224, pixels = 0\<rparr>,
      Read_frame, Read_frame, Read_frame, Read_frame]"
    by code_simp
  have c: "\<lceil>(1::real) / 6\<rceil> = 1"
    by (rule ceiling_unique) simp_all
  show ?thesis
    using
      extract_frames_count_and_stride [where r = 3 and target_size = "(224, 224)"
        and output_dir = "''out''" and w = "world_clip 10" and video_path = "''clip.mov''"
        and frames = "map sample_frame [0..<10]" and INTER_AREA = sample_interpolation]
      extract_frames_count_and_stride [where r = 30 and target_size = "(224, 224)"
        and output_dir = "''out''" and w = "world_clip 5" and video_path = "''clip.mov''"
        and frames = "map sample_frame [0..<5]" and INTER_AREA = sample_interpolation]
    by (simp add: a b c world_clip_def creatable_def)
qed

text \<open>
  C6. At sample rate 1 every frame of the source is written, in the order of the source, and
  the frame at position \<open>i\<close> is saved under the index \<open>i\<close>.
\<close>

theorem every_frame_at_rate_1:
  assumes "0 < fst target_size" "0 < snd target_size" "creatable output_dir w"
    "fs w video_path = Some (Video frames)"
  shows "fst (extract_frames INTER_AREA video_path output_dir 1 target_size w) =
           Inr (int (length frames)) \<and>
         writes (extract_frames_events INTER_AREA video_path output_dir 1 target_size w) =
           map (\<lambda>(i, f). (os_path_join output_dir (frame_name (int i)),
                           resized INTER_AREA target_size f))
             (enumerate 0 frames)"
proof -
  have one: "(1::int) \<le> 1" by simp
  show ?thesis
    using extract_frames_stride(1) [OF one assms, of INTER_AREA]
      extract_frames_events_stride [OF one assms, of INTER_AREA]
    by (simp add: ceil_div_1 writes_frame_events_1)
qed

theorem every_frame_at_rate_1_witness:
  "fst (extract_frames sample_interpolation ''clip.mov'' ''out'' 1 (224, 224) (world_clip 3)) = Inr 3 \<and>
   writes (extract_frames_events sample_interpolation ''clip.mov'' ''out'' 1 (224, 224)
             (world_clip 3)) =
     [(''out/frame_00000.png'', \<lparr>width = 224, height = 224, pixels = 0\<rparr>),
      (''out/frame_00001.png'', \<lparr>width = 224, height = 224, pixels = 1\<rparr>),
      (''out/frame_00002.png'', \<lparr>width = 224, height = 224, pixels = 2\<rparr>)]"
proof -
  have a: "map (\<lambda>(i, f). (os_path_join ''out'' (frame_name (int i)),
                          resized sample_interpolation (224, 224) f))
             (enumerate 0 (map sample_frame [0..<3])) =
     [(''out/frame_00000.png'', \<lparr>width = 224, height = 224, pixels = 0\<rparr>),
      (''out/frame_00001.png'', \<lparr>width = 224, height = 224, pixels = 1\<rparr>),
      (''out/frame_00002.png'', \<lparr>width = 224, height = 224, pixels = 2\<rparr>)]"
    by code_simp
  show ?thesis
    using every_frame_at_rate_1 [where target_size = "(224, 224)"
        and output_dir = "''out''" and w = "world_clip 3" and video_path = "''clip.mov''"
        and frames = "map sample_frame [0..<3]" and INTER_AREA = sample_interpolation]
    by (simp add: a world_clip_def creatable_def)
qed

text \<open>
  C7. A source with no frames gives the count 0 and no exception, whatever the sample rate
  and the target size: the first read finds the end of the source and the loop is left.
\<close>

theorem empty_source_returns_zero:
  assumes "creatable output_dir w" "fs w video_path = Some (Video [])"
  shows "fst (extract_frames INTER_AREA video_path output_dir r target_size w) = Inr 0 \<and>
         extract_frames_events INTER_AREA video_path output_dir r target_size w =
           [Open_video video_path, Mkdir output_dir, Read_frame, Release]"
  using extract_frames_video [OF assms, of INTER_AREA r target_size]
  by (simp add: extract_frames_events_def new_events_append)

theorem empty_source_returns_zero_witness:
  "fst (extract_frames sample_interpolation ''clip.mov'' ''out'' 30 (212, 212) (world_clip 0)) = Inr 0 \<and>
   extract_frames_events sample_interpolation ''clip.mov'' ''out'' 30 (212, 212) (world_clip 0) =
     [Open_video ''clip.mov'', Mkdir ''out'', Read_frame, Release]"
  using empty_source_returns_zero [where output_dir = "''out''" and w = "world_clip 0"
      and video_path = "''clip.mov''" and INTER_AREA = sample_interpolation and r = 30
      and target_size = "(212, 212)"]
  by (simp add: world_clip_def creatable_def)

section \<open>Saved indices and file names\<close>

text \<open>
  C2, as amended. For every sample rate \<open>r \<ge> 1\<close> and every source, the saved frames
  carry the identifiers 0, 1, ..., count - 1, each once and in this order, where count is
  the value returned; the frame with identifier \<open>k\<close> is written to the output directory
  under the name \<^verbatim>\<open>frame_{k:05d}.png\<close>, and the names are pairwise distinct. The number
  in the name is the decimal identifier padded with zeros to a width of at least five: the
  first name is \<^verbatim>\<open>frame_00000.png\<close>, the number has exactly five digits for every
  identifier below 100000, and from 100000 on it is the unpadded decimal, of six digits or
  more.
\<close>

theorem saved_identifiers_and_names:
  assumes "1 \<le> r" "0 < fst target_size" "0 < snd target_size" "creatable output_dir w"
    "fs w video_path = Some (Video frames)"
  shows "fst (extract_frames INTER_AREA video_path output_dir r target_size w) =
           Inr (int (length (writes
             (extract_frames_events INTER_AREA video_path output_dir r target_size w)))) \<and>
         map fst (writes (extract_frames_events INTER_AREA video_path output_dir r target_size w)) =
           map (\<lambda>k. os_path_join output_dir (frame_name (int k)))
             [0..<length (writes
               (extract_frames_events INTER_AREA video_path output_dir r target_size w))] \<and>
         distinct (map fst
           (writes (extract_frames_events INTER_AREA video_path output_dir r target_size w))) \<and>
         frame_name 0 = ''frame_00000.png'' \<and>
         (\<forall>k. 0 \<le> k \<and> k < 100000 \<longrightarrow> length (format_05d k) = 5) \<and>
         (\<forall>k. 100000 \<le> k \<longrightarrow> format_05d k = str_int k \<and> 5 < length (format_05d k))"
proof -
  let ?L = "loop_run INTER_AREA output_dir r target_size frames 0 0"
  let ?E = "extract_frames_events INTER_AREA video_path output_dir r target_size w"
  have w: "writes ?E = writes (snd ?L)"
    using assms(4,5) by (simp add: writes_extract_frames_events)
  have res: "fst (extract_frames INTER_AREA video_path output_dir r target_size w) = fst ?L"
    by (rule extract_frames_video(1) [OF assms(4,5)])
  have "fst ?L = Inr (ceil_div (int (length frames)) r)"
    using extract_frames_stride(1) [OF assms, of INTER_AREA] res by simp
  then have count: "fst ?L = Inr (int (length (writes (snd ?L))))"
    using loop_run_count [of INTER_AREA output_dir r target_size frames 0 0] by simp
  have paths: "map fst (writes (snd ?L)) =
      map (\<lambda>k. os_path_join output_dir (frame_name (int k))) [0..<length (writes (snd ?L))]"
    using loop_run_paths [of INTER_AREA output_dir r target_size frames 0 0] by simp
  have "distinct (map fst (writes (snd ?L)))"
    by (subst paths) (rule frame_paths_distinct)
  then show ?thesis
    using res count paths frame_name_0 length_format_05d format_05d_wide by (simp add: w)
qed

theorem saved_identifiers_and_names_witness:
  "fst (extract_frames sample_interpolation ''clip.mov'' ''out'' 3 (224, 224) (world_clip 10)) = Inr 4 \<and>
   map fst (writes (extract_frames_events sample_interpolation ''clip.mov'' ''out'' 3 (224, 224)
                      (world_clip 10))) =
     [''out/frame_00000.png'', ''out/frame_00001.png'', ''out/frame_00002.png'',
      ''out/frame_00003.png''] \<and>
   distinct (map fst (writes (extract_frames_events sample_interpolation ''clip.mov'' ''out'' 3
                                (224, 224) (world_clip 10)))) \<and>
   length (format_05d 3) = 5 \<and>
   format_05d 100000 = ''100000'' \<and>
   5 < length (format_05d 100000)"
proof -
  have n: "length (writes (extract_frames_events sample_interpolation ''clip.mov'' ''out'' 3
                             (224, 224) (world_clip 10))) = 4"
    by (simp add: clip10_events)
  have m: "map (\<lambda>k. os_path_join ''out'' (frame_name (int k))) [0..<4] =
     [''out/frame_00000.png'', ''out/frame_00001.png'', ''out/frame_00002.png'',
      ''out/frame_00003.png'']"
    by code_simp
  note t = saved_identifiers_and_names [OF clip10_hyps, of sample_interpolation, unfolded n m]
  have run: "fst (extract_frames sample_interpolation ''clip.mov'' ''out'' 3 (224, 224)
                    (world_clip 10)) = Inr 4"
    "map fst (writes (extract_frames_events sample_interpolation ''clip.mov'' ''out'' 3 (224, 224)
                        (world_clip 10))) =
       [''out/frame_00000.png'', ''out/frame_00001.png'', ''out/frame_00002.png'',
        ''out/frame_00003.png'']"
    "distinct (map fst (writes (extract_frames_events sample_interpolation ''clip.mov'' ''out'' 3
                                  (224, 224) (world_clip 10))))"
    using t by simp_all
  have narrow: "\<forall>k. 0 \<le> k \<and> k < 100000 \<longrightarrow> length (format_05d k) = 5"
    and wide: "\<forall>k. 100000 \<le> k \<longrightarrow> format_05d k = str_int k \<and> 5 < length (format_05d k)"
    using t by blast+
  have five: "length (format_05d 3) = 5"
    using narrow [THEN spec, of 3] by simp
  have six: "format_05d 100000 = ''100000''" "5 < length (format_05d 100000)"
    using wide [THEN spec, of 100000] by (simp_all add: str_int_100000)
  show ?thesis
    using run five six by blast
qed

text \<open>
  The claim as it was stated, with a number of five digits in every name, fails on a clip
  of 100001 frames sampled at rate 1: the last frame has the identifier 100000 and is
  written as \<^verbatim>\<open>frame_100000.png\<close>, with six digits.
\<close>

theorem five_digit_names_counterexample:
  "map fst (writes (extract_frames_events sample_interpolation ''clip.mov'' ''out'' 1 (224, 224)
                      (world_clip 100001))) ! 100000 = ''out/frame_100000.png'' \<and>
   frame_name 100000 = ''frame_100000.png'' \<and>
   length (format_05d 100000) = 6"
proof -
  let ?frames = "map sample_frame [0..<100001]"
  let ?L = "loop_run sample_interpolation ''out'' 1 (224, 224) ?frames 0 0"
  let ?E = "extract_frames_events sample_interpolation ''clip.mov'' ''out'' 1 (224, 224)
              (world_clip 100001)"
  have hyps: "(1::int) \<le> 1" "0 < fst (224::int, 224::int)" "0 < snd (224::int, 224::int)"
    "creatable ''out'' (world_clip 100001)"
    "fs (world_clip 100001) ''clip.mov'' = Some (Video ?frames)"
    by (simp_all add: world_clip_def creatable_def)
  have w: "writes ?E = writes (snd ?L)"
    using hyps(4,5) by (simp add: writes_extract_frames_events)
  have "fst ?L = Inr 100001"
    using extract_frames_stride(1) [OF hyps, of sample_interpolation]
      extract_frames_video(1) [OF hyps(4,5), of sample_interpolation 1 "(224, 224)"]
    by (simp add: ceil_div_1)
  then have len: "length (writes (snd ?L)) = 100001"
    using loop_run_count [of sample_interpolation "''out''" 1 "(224, 224)" ?frames 0 0 100001]
    by simp
  have idx: "[0..<100001] ! 100000 = (100000::nat)"
    using nth_upt [of 0 100000 100001] by simp
  have "map fst (writes (snd ?L)) =
          map (\<lambda>j. os_path_join ''out'' (frame_name (0 + int j))) [0..<100001]"
    using loop_run_paths [of sample_interpolation "''out''" 1 "(224, 224)" ?frames 0 0]
    unfolding len .
  then have "map fst (writes (snd ?L)) ! 100000 =
          os_path_join ''out'' (frame_name (0 + int ([0..<100001] ! 100000)))"
    by (simp only: nth_map length_upt)
  then have p1: "map fst (writes (snd ?L)) ! 100000 = os_path_join ''out'' (frame_name 100000)"
    unfolding idx by simp
  have p: "map fst (writes ?E) ! 100000 = ''out/frame_100000.png''"
    unfolding w using p1 frame_path_100000 by (rule trans)
  show ?thesis
    by (rule conjI [OF p conjI [OF frame_name_100000 length_format_05d_100000]])
qed

text \<open>
  C8. In every run of \<^verbatim>\<open>extract_frames\<close>, whatever its arguments and its outcome, the
  \<open>j\<close>-th write (from 0) carries the saved index \<open>j\<close>, so that the saved index grows by
  exactly one per accepted frame; the writes follow the order of the source, each write
  coming after a later read than the write before it; the raster written is the resized
  frame that the latest read delivered, so that no frame is held back beyond the next
  read; and a count that is returned is the number of writes.
\<close>

theorem emission_order:
  "map (fst \<circ> snd)
       (emitted 0 (extract_frames_events INTER_AREA video_path output_dir r target_size w)) =
     map (\<lambda>j. os_path_join output_dir (frame_name (int j)))
       [0..<length (emitted 0
          (extract_frames_events INTER_AREA video_path output_dir r target_size w))] \<and>
   sorted_wrt (<) (map fst
     (emitted 0 (extract_frames_events INTER_AREA video_path output_dir r target_size w))) \<and>
   (\<forall>(k, p, img) \<in> set (emitted 0
        (extract_frames_events INTER_AREA video_path output_dir r target_size w)).
      \<exists>frames. fs w video_path = Some (Video frames) \<and> 0 < k \<and> k \<le> length frames \<and>
        img = resized INTER_AREA target_size (frames ! (k - 1))) \<and>
   (\<forall>c. fst (extract_frames INTER_AREA video_path output_dir r target_size w) = Inr c \<longrightarrow>
      c = int (length (emitted 0
        (extract_frames_events INTER_AREA video_path output_dir r target_size w))))"
proof (cases "creatable output_dir w \<and> (\<exists>frames. fs w video_path = Some (Video frames))")
  case True
  then obtain frames where c: "creatable output_dir w" and v: "fs w video_path = Some (Video frames)"
    by blast
  let ?L = "loop_run INTER_AREA output_dir r target_size frames 0 0"
  have e: "emitted 0 (extract_frames_events INTER_AREA video_path output_dir r target_size w) =
             emitted 0 (snd ?L)"
    using c v by (simp add: emitted_extract_frames_events)
  have len: "length (writes (snd ?L)) = length (emitted 0 (snd ?L))"
    by (simp add: writes_emitted [of _ 0])
  have paths: "map (fst \<circ> snd) (emitted 0 (snd ?L)) =
      map (\<lambda>j. os_path_join output_dir (frame_name (int j))) [0..<length (emitted 0 (snd ?L))]"
    using loop_run_paths [of INTER_AREA output_dir r target_size frames 0 0]
    by (simp add: writes_emitted [of _ 0])
  have order: "sorted_wrt (<) (map fst (emitted 0 (snd ?L)))"
    by (rule loop_run_emitted_sorted)
  have frame: "\<exists>frames. fs w video_path = Some (Video frames) \<and> 0 < k \<and> k \<le> length frames \<and>
        img = resized INTER_AREA target_size (frames ! (k - 1))"
    if "(k, p, img) \<in> set (emitted 0 (snd ?L))" for k p img
    using loop_run_emitted_frame [OF that] v by simp
  have count: "c' = int (length (emitted 0 (snd ?L)))"
    if "fst (extract_frames INTER_AREA video_path output_dir r target_size w) = Inr c'" for c'
    using that extract_frames_video(1) [OF c v, of INTER_AREA r target_size]
      loop_run_count [of INTER_AREA output_dir r target_size frames 0 0 c'] len
    by simp
  show ?thesis
    unfolding e using paths order frame count by blast
next
  case False
  then have e: "emitted 0 (extract_frames_events INTER_AREA video_path output_dir r target_size w) = []"
    by (auto simp: emitted_extract_frames_events split: option.splits node.splits)
  have "c = 0" if "fst (extract_frames INTER_AREA video_path output_dir r target_size w) = Inr c" for c
  proof (cases "creatable output_dir w")
    case True
    then have "\<And>frames. fs w video_path \<noteq> Some (Video frames)"
      using False by blast
    from extract_frames_unopened(1) [OF True this, of INTER_AREA r target_size] that
    show ?thesis by simp
  next
    case False
    from extract_frames_not_creatable(1) [OF False, of INTER_AREA video_path r target_size] that
    show ?thesis by simp
  qed
  then show ?thesis
    unfolding e by simp
qed

theorem emission_order_witness:
  "map (fst \<circ> snd)
       (emitted 0 (extract_frames_events sample_interpolation ''clip.mov'' ''out'' 3 (224, 224)
                     (world_clip 10))) =
     [''out/frame_00000.png'', ''out/frame_00001.png'', ''out/frame_00002.png'',
      ''out/frame_00003.png''] \<and>
   sorted_wrt (<) (map fst
     (emitted 0 (extract_frames_events sample_interpolation ''clip.mov'' ''out'' 3 (224, 224)
                   (world_clip 10)))) \<and>
   (7, ''out/frame_00002.png'', \<lparr>width = 224, height = 224, pixels = 6\<rparr>) \<in>
     set (emitted 0 (extract_frames_events sample_interpolation ''clip.mov'' ''out'' 3 (224, 224)
                       (world_clip 10))) \<and>
   \<lparr>width = 224, height = 224, pixels = 6\<rparr> =
     resized sample_interpolation (224, 224) (map sample_frame [0..<10] ! (7 - 1)) \<and>
   fst (extract_frames sample_interpolation ''clip.mov'' ''out'' 3 (224, 224) (world_clip 10)) = Inr 4 \<and>
   4 = int (length (emitted 0 (extract_frames_events sample_interpolation ''clip.mov'' ''out'' 3
                                 (224, 224) (world_clip 10))))"
proof -
  let ?E = "extract_frames_events sample_interpolation ''clip.mov'' ''out'' 3 (224, 224) (world_clip 10)"
  note t = emission_order [where INTER_AREA = sample_interpolation and video_path = "''clip.mov''"
      and output_dir = "''out''" and r = 3 and target_size = "(224, 224)" and w = "world_clip 10"]
  have em: "emitted 0 ?E =
     [(1, ''out/frame_00000.png'', \<lparr>width = 224, height = 224, pixels = 0\<rparr>),
      (4, ''out/frame_00001.png'', \<lparr>width = 224, height = 224, pixels = 3\<rparr>),
      (7, ''out/frame_00002.png'', \<lparr>width = 224, height = 224, pixels = 6\<rparr>),
      (10, ''out/frame_00003.png'', \<lparr>width = 224, height = 224, pixels = 9\<rparr>)]"
    by (simp add: clip10_events)
  have mem: "(7, ''out/frame_00002.png'', \<lparr>width = 224, height = 224, pixels = 6\<rparr>) \<in> set (emitted 0 ?E)"
    by (simp add: em)
  have m: "map (\<lambda>k. os_path_join ''out'' (frame_name (int k))) [0..<4] =
     [''out/frame_00000.png'', ''out/frame_00001.png'', ''out/frame_00002.png'',
      ''out/frame_00003.png'']"
    by code_simp
  have len: "length (emitted 0 ?E) = 4"
    by (simp add: em)
  have res: "fst (extract_frames sample_interpolation ''clip.mov'' ''out'' 3 (224, 224) (world_clip 10)) = Inr 4"
    using extract_frames_stride(1) [OF clip10_hyps, of sample_interpolation]
    by (simp add: ceil_div_def)
  have paths: "map (fst \<circ> snd) (emitted 0 ?E) =
     [''out/frame_00000.png'', ''out/frame_00001.png'', ''out/frame_00002.png'',
      ''out/frame_00003.png'']"
    using t [THEN conjunct1] unfolding len m .
  have order: "sorted_wrt (<) (map fst (emitted 0 ?E))"
    using t [THEN conjunct2, THEN conjunct1] .
  have fr: "\<exists>frames. fs (world_clip 10) ''clip.mov'' = Some (Video frames) \<and> 0 < (7::nat) \<and>
      7 \<le> length frames \<and>
      \<lparr>width = 224, height = 224, pixels = 6\<rparr> = resized sample_interpolation (224, 224) (frames ! (7 - 1))"
    using t [THEN conjunct2, THEN conjunct2, THEN conjunct1] mem by blast
  then have "\<lparr>width = 224, height = 224, pixels = 6\<rparr> =
      resized sample_interpolation (224, 224) (map sample_frame [0..<10] ! (7 - 1))"
    by (auto simp: world_clip_def)
  moreover have "4 = int (length (emitted 0 ?E))"
    using t [THEN conjunct2, THEN conjunct2, THEN conjunct2] res by blast
  ultimately show ?thesis
    using paths order mem res by blast
qed

section \<open>Resizing\<close>

text \<open>
  C3. Whatever the width and height of the input raster, \<^verbatim>\<open>resize_image\<close> with a
  valid target size returns a raster of exactly the target's width and height, whose
  content is interpolated from the whole input (no cropping or padding is done, and the
  proportions of the input play no part); and in every run of \<^verbatim>\<open>extract_frames\<close>
  every raster written has exactly the target's width and height.
\<close>

theorem emitted_frames_have_target_size:
  "(0 < fst target_size \<and> 0 < snd target_size \<longrightarrow>
      resize_image INTER_AREA img target_size =
        Inr \<lparr>width = fst target_size, height = snd target_size,
             pixels = INTER_AREA img target_size\<rparr>) \<and>
   (\<forall>(p, out_img) \<in> set (writes
        (extract_frames_events INTER_AREA video_path output_dir r target_size w)).
      width out_img = fst target_size \<and> height out_img = snd target_size)"
proof -
  have "width out_img = fst target_size \<and> height out_img = snd target_size"
    if "(p, out_img) \<in> set (writes
          (extract_frames_events INTER_AREA video_path output_dir r target_size w))"
    for p out_img
    using that loop_run_dims [of p out_img INTER_AREA output_dir r target_size _ 0 0]
    by (auto simp: writes_extract_frames_events split: if_splits option.splits node.splits)
  then show ?thesis
    by (auto simp: resize_image_def cv2_resize_def)
qed

theorem emitted_frames_have_target_size_witness:
  "resize_image sample_interpolation \<lparr>width = 1920, height = 1080, pixels = 7\<rparr> (224, 224) =
     Inr \<lparr>width = 224, height = 224, pixels = 7\<rparr> \<and>
   (''out/frame_00000.png'', resized sample_interpolation (224, 224) (sample_frame 0)) \<in>
     set (writes (extract_frames_events sample_interpolation ''clip.mov'' ''out'' 30 (224, 224)
                    (world_clip 1))) \<and>
   width (resized sample_interpolation (224, 224) (sample_frame 0)) = 224 \<and>
   height (resized sample_interpolation (224, 224) (sample_frame 0)) = 224"
proof -
  have mem: "(''out/frame_00000.png'', resized sample_interpolation (224, 224) (sample_frame 0)) \<in>
     set (writes (extract_frames_events sample_interpolation ''clip.mov'' ''out'' 30 (224, 224)
                    (world_clip 1)))"
    by code_simp
  show ?thesis
    using mem emitted_frames_have_target_size [where target_size = "(224, 224)"
        and INTER_AREA = sample_interpolation and img = "\<lparr>width = 1920, height = 1080, pixels = 7\<rparr>"
        and video_path = "''clip.mov''" and output_dir = "''out''" and r = 30
        and w = "world_clip 1"]
    by (auto simp: sample_interpolation_def)
qed

section \<open>A negative sample rate\<close>

text \<open>
  C9. For a sample rate \<open>r \<le> -1\<close> the run is the run for \<open>|r|\<close>: no exception is raised,
  and the frames written are those whose read index \<open>i\<close> satisfies \<open>i mod |r| = 0\<close>.
\<close>

theorem negative_rate_same_as_absolute:
  assumes "r \<le> - 1" "0 < fst target_size" "0 < snd target_size" "creatable output_dir w"
    "fs w video_path = Some (Video frames)"
  shows "extract_frames INTER_AREA video_path output_dir r target_size w =
           extract_frames INTER_AREA video_path output_dir \<bar>r\<bar> target_size w \<and>
         fst (extract_frames INTER_AREA video_path output_dir r target_size w) =
           Inr \<lceil>real (length frames) / real_of_int \<bar>r\<bar>\<rceil> \<and>
         extract_frames_events INTER_AREA video_path output_dir r target_size w =
           [Open_video video_path, Mkdir output_dir] @
             concat (map (frame_events INTER_AREA output_dir \<bar>r\<bar> target_size)
                       (enumerate 0 frames)) @
             [Read_frame, Release]"
proof -
  have abs: "\<bar>r\<bar> = - r" "1 \<le> - r" "0 < - r"
    using assms(1) by simp_all
  have eq: "extract_frames INTER_AREA video_path output_dir r target_size w =
              extract_frames INTER_AREA video_path output_dir (- r) target_size w"
    by (rule extract_frames_neg [symmetric])
  have "\<lceil>real (length frames) / real_of_int (- r)\<rceil> = ceil_div (int (length frames)) (- r)"
    using ceiling_ceil_div [OF abs(3), of "int (length frames)"] by simp
  then show ?thesis
    unfolding abs(1) extract_frames_events_def eq
    using extract_frames_stride(1) [OF abs(2) assms(2-5), of INTER_AREA]
      extract_frames_events_stride [OF abs(2) assms(2-5), of INTER_AREA]
    by (simp add: extract_frames_events_def)
qed

theorem negative_rate_same_as_absolute_witness:
  "extract_frames sample_interpolation ''clip.mov'' ''out'' (- 3) (224, 224) (world_clip 10) =
     extract_frames sample_interpolation ''clip.mov'' ''out'' 3 (224, 224) (world_clip 10) \<and>
   fst (extract_frames sample_interpolation ''clip.mov'' ''out'' (- 3) (224, 224) (world_clip 10)) =
     Inr 4 \<and>
   extract_frames_events sample_interpolation ''clip.mov'' ''out'' (- 3) (224, 224) (world_clip 10) =
     [Open_video ''clip.mov'', Mkdir ''out'',
      Read_frame, Imwrite ''out/frame_00000.png'' \<lparr>width = 224, height = 224, pixels = 0\<rparr>,
      Read_frame, Read_frame,
      Read_frame, Imwrite ''out/frame_00001.png'' \<lparr>width = 224, height = 224, pixels = 3\<rparr>,
      Read_frame, Read_frame,
      Read_frame, Imwrite ''out/frame_00002.png'' \<lparr>width = 224, height = 224, pixels = 6\<rparr>,
      Read_frame, Read_frame,
      Read_frame, Imwrite ''out/frame_00003.png'' \<lparr>width = 224, height = 224, pixels = 9\<rparr>,
      Read_frame, Release]"
proof -
  have a: "concat (map (frame_events sample_interpolation ''out'' 3 (224, 224))
             (enumerate 0 (map sample_frame [0..<10]))) =
     [Read_frame, Imwrite ''out/frame_00000.png'' \<lparr>width = 224, height = 224, pixels = 0\<rparr>,
      Read_frame, Read_frame,
      Read_frame, Imwrite ''out/frame_00001.png'' \<lparr>width = 224, height = 224, pixels = 3\<rparr>,
      Read_frame, Read_frame,
      Read_frame, Imwrite ''out/frame_00002.png'' \<lparr>width = 224, height = 224, pixels = 6\<rparr>,
      Read_frame, Read_frame,
      Read_frame, Imwrite ''out/frame_00003.png'' \<lparr>width = 224, height = 224, pixels = 9\<rparr>]"
    by code_simp
  show ?thesis
    using negative_rate_same_as_absolute [where r = "- 3" and target_size = "(224, 224)"
        and output_dir = "''out''" and w = "world_clip 10" and video_path = "''clip.mov''"
        and frames = "map sample_frame [0..<10]" and INTER_AREA = sample_interpolation]
    by (auto simp add: a world_clip_def creatable_def)
qed

section \<open>Sample rate zero\<close>

text \<open>
  C4, as amended. \<^verbatim>\<open>extract_frames\<close> does not validate its configuration. With sample rate 0
  and an output directory that can be created, it opens the source and creates the
  directory; if the source delivers a frame, that frame is read and the stride test then
  raises Python's \<^verbatim>\<open>ZeroDivisionError\<close>, before anything is resized or written and
  without a release of the capture; if the source has no frame or cannot be opened, the
  count 0 is returned and nothing is raised.
\<close>

theorem zero_rate_behaviour:
  assumes "creatable output_dir w"
  shows "fst (extract_frames INTER_AREA video_path output_dir 0 target_size w) =
           (case fs w video_path of
              Some (Video (f # rest)) \<Rightarrow> Inl ZeroDivisionError
            | _ \<Rightarrow> Inr 0) \<and>
         extract_frames_events INTER_AREA video_path output_dir 0 target_size w =
           Open_video video_path # Mkdir output_dir #
             (case fs w video_path of
                Some (Video []) \<Rightarrow> [Read_frame, Release]
              | Some (Video (f # rest)) \<Rightarrow> [Read_frame]
              | _ \<Rightarrow> [Release])"
proof (cases "\<exists>frames. fs w video_path = Some (Video frames)")
  case True
  then obtain frames where v: "fs w video_path = Some (Video frames)"
    by blast
  show ?thesis
    using extract_frames_video(1) [OF assms v, of INTER_AREA 0 target_size] assms v
    by (cases frames) (simp_all add: extract_frames_events_eq)
next
  case False
  then have nv: "\<And>frames. fs w video_path \<noteq> Some (Video frames)"
    by blast
  show ?thesis
    using extract_frames_unopened(1) [OF assms nv, of INTER_AREA 0 target_size] assms nv
    by (simp add: extract_frames_events_eq split: option.splits node.splits)
qed

theorem zero_rate_behaviour_witness:
  "creatable ''out'' (world_clip 2) \<and>
   fst (extract_frames sample_interpolation ''clip.mov'' ''out'' 0 (224, 224) (world_clip 2)) =
     Inl ZeroDivisionError \<and>
   extract_frames_events sample_interpolation ''clip.mov'' ''out'' 0 (224, 224) (world_clip 2) =
     [Open_video ''clip.mov'', Mkdir ''out'', Read_frame] \<and>
   fst (extract_frames sample_interpolation ''clip.mov'' ''out'' 0 (224, 224) (world_clip 0)) =
     Inr 0 \<and>
   extract_frames_events sample_interpolation ''clip.mov'' ''out'' 0 (224, 224) (world_clip 0) =
     [Open_video ''clip.mov'', Mkdir ''out'', Read_frame, Release] \<and>
   fst (extract_frames sample_interpolation ''missing.mov'' ''out'' 0 (224, 224) (world_clip 2)) =
     Inr 0 \<and>
   extract_frames_events sample_interpolation ''missing.mov'' ''out'' 0 (224, 224) (world_clip 2) =
     [Open_video ''missing.mov'', Mkdir ''out'', Release]"
proof -
  have c: "creatable ''out'' (world_clip 2)" "creatable ''out'' (world_clip 0)"
    by (simp_all add: world_clip_def creatable_def)
  have u: "[0..<2] = [0, 1]"
    by code_simp
  show ?thesis
    using c(1)
      zero_rate_behaviour [OF c(1), of sample_interpolation "''clip.mov''" "(224, 224)"]
      zero_rate_behaviour [OF c(2), of sample_interpolation "''clip.mov''" "(224, 224)"]
      zero_rate_behaviour [OF c(1), of sample_interpolation "''missing.mov''" "(224, 224)"]
    by (simp add: world_clip_def u)
qed

text \<open>
  The claim as it was stated, that sample rate 0 raises a configuration error before any
  frame is read, fails on a clip of one frame: the exception is
  \<^verbatim>\<open>ZeroDivisionError\<close> and it comes after a read. On a clip without frames nothing is
  raised.
\<close>

theorem zero_rate_counterexample:
  "fst (extract_frames sample_interpolation ''clip.mov'' ''out'' 0 (224, 224) (world_clip 1)) =
     Inl ZeroDivisionError \<and>
   extract_frames_events sample_interpolation ''clip.mov'' ''out'' 0 (224, 224) (world_clip 1) =
     [Open_video ''clip.mov'', Mkdir ''out'', Read_frame] \<and>
   fst (extract_frames sample_interpolation ''clip.mov'' ''out'' 0 (224, 224) (world_clip 0)) = Inr 0"
  by code_simp

section \<open>A source that cannot be opened\<close>

text \<open>
  C5, as amended. Only a path that does not exist is reported, by
  \<^verbatim>\<open>process_local_video\<close>, as \<^verbatim>\<open>FileNotFoundError\<close>. For a source that cannot be opened
  \<^verbatim>\<open>extract_frames\<close> raises nothing on that account: the loop guard fails at once, no
  frame is read, and the count 0 is returned, as for a source without frames (the only
  exception possible is that of the directory creation); \<^verbatim>\<open>process_local_video\<close>
  likewise returns 0 for a path that exists but cannot be opened as a video.
\<close>

theorem unopenable_source_behaviour:
  assumes "\<forall>frames. fs w video_path \<noteq> Some (Video frames)"
  shows "fst (extract_frames INTER_AREA video_path output_dir r target_size w) =
           (if creatable output_dir w then Inr 0 else Inl (FileExistsError output_dir)) \<and>
         Read_frame \<notin> set (extract_frames_events INTER_AREA video_path output_dir r target_size w) \<and>
         fst (process_local_video INTER_AREA video_path output_dir r target_size w) =
           (if \<not> os_path_exists video_path w
            then Inl (FileNotFoundError (''Video file not found: '' @ video_path))
            else if creatable (os_path_join output_dir ''frames'') w then Inr 0
            else Inl (FileExistsError (os_path_join output_dir ''frames'')))"
proof -
  have nv: "\<And>frames. fs w video_path \<noteq> Some (Video frames)"
    using assms by blast
  have a: "fst (extract_frames INTER_AREA video_path output_dir r target_size w) =
           (if creatable output_dir w then Inr 0 else Inl (FileExistsError output_dir))"
    using extract_frames_unopened(1) [OF _ nv, of output_dir INTER_AREA r target_size]
      extract_frames_not_creatable(1) [of output_dir w INTER_AREA video_path r target_size]
    by simp
  have b: "Read_frame \<notin> set (extract_frames_events INTER_AREA video_path output_dir r target_size w)"
    using nv by (simp add: extract_frames_events_eq split: option.splits node.splits)
  have c: "fst (process_local_video INTER_AREA video_path output_dir r target_size w) =
           (if \<not> os_path_exists video_path w
            then Inl (FileNotFoundError (''Video file not found: '' @ video_path))
            else if creatable (os_path_join output_dir ''frames'') w then Inr 0
            else Inl (FileExistsError (os_path_join output_dir ''frames'')))"
    using process_local_video_unopened [OF nv, of output_dir INTER_AREA r target_size]
      process_local_video_not_creatable [of video_path w output_dir INTER_AREA r target_size]
    by (simp add: process_local_video_def)
  show ?thesis
    using a b c by blast
qed

theorem unopenable_source_behaviour_witness:
  "fst (extract_frames sample_interpolation ''notes.txt'' ''out'' 30 (212, 212) world_undecodable) =
     Inr 0 \<and>
   Read_frame \<notin> set (extract_frames_events sample_interpolation ''notes.txt'' ''out'' 30 (212, 212)
                        world_undecodable) \<and>
   fst (process_local_video sample_interpolation ''notes.txt'' ''out'' 30 (212, 212)
          world_undecodable) = Inr 0 \<and>
   fst (process_local_video sample_interpolation ''missing.mov'' ''out'' 30 (212, 212)
          world_undecodable) = Inl (FileNotFoundError ''Video file not found: missing.mov'')"
proof -
  have h: "\<forall>frames. fs world_undecodable ''notes.txt'' \<noteq> Some (Video frames)"
    "\<forall>frames. fs world_undecodable ''missing.mov'' \<noteq> Some (Video frames)"
    by (simp_all add: world_undecodable_def)
  have j: "os_path_join ''out'' ''frames'' = ''out/frames''"
    by code_simp
  show ?thesis
    using unopenable_source_behaviour [OF h(1), of sample_interpolation "''out''" 30 "(212, 212)"]
      unopenable_source_behaviour [OF h(2), of sample_interpolation "''out''" 30 "(212, 212)"]
    by (simp add: j creatable_def os_path_exists_def world_undecodable_def)
qed

text \<open>
  The claim as it was stated, that a source which cannot be opened is reported as an error
  and not as a count of zero, fails: a file that is not a video gives 0 from
  \<^verbatim>\<open>process_local_video\<close>, and a missing file gives 0 from \<^verbatim>\<open>extract_frames\<close>, the same
  value as a clip without frames.
\<close>

theorem unopenable_source_counterexample:
  "fst (process_local_video sample_interpolation ''notes.txt'' ''out'' 30 (212, 212)
          world_undecodable) = Inr 0 \<and>
   fst (extract_frames sample_interpolation ''missing.mov'' ''out'' 30 (212, 212) world_empty) =
     Inr 0 \<and>
   fst (extract_frames sample_interpolation ''clip.mov'' ''out'' 30 (212, 212) (world_clip 0)) =
     Inr 0"
  by code_simp

section \<open>A missing video file\<close>

text \<open>
  C10. If \<^verbatim>\<open>video_path\<close> does not exist, \<^verbatim>\<open>process_local_video\<close> raises
  \<^verbatim>\<open>FileNotFoundError\<close> and the world after the call is the world before it: no directory
  has been created, no frame read, no file written and nothing printed.
\<close>

theorem process_local_video_missing:
  "\<not> os_path_exists video_path w \<Longrightarrow>
     process_local_video INTER_AREA video_path output_dir sample_rate target_size w =
       (Inl (FileNotFoundError (''Video file not found: '' @ video_path)), w)"
  by (simp add: process_local_video_def)

theorem process_local_video_missing_witness:
  "\<not> os_path_exists ''drones3.mov'' world_empty \<and>
   process_local_video sample_interpolation ''drones3.mov'' ''suas_dataset'' 3 (224, 224)
       world_empty =
     (Inl (FileNotFoundError ''Video file not found: drones3.mov''), world_empty)"
  using process_local_video_missing
    [of "''drones3.mov''" world_empty sample_interpolation "''suas_dataset''" 3 "(224, 224)"]
  by (simp add: os_path_exists_def world_empty_def)

end
